theory Spec2Isabelle
  imports Main "HOL-Library.Word"
begin

section \<open>The emulator core and its controller (engine.py)\<close>

text \<open>
  A shallow embedding of \<^verbatim>\<open>EmulatorCore\<close> and of the controller half of
  \<^verbatim>\<open>EmulatorGUI\<close>. Everything outside the two classes is environment and is made
  explicit: the file system answers \<^verbatim>\<open>open(path, "rb")\<close> and \<^verbatim>\<open>f.read()\<close>, the SDL
  library answers each call the core makes, and the controller thread may write the run
  flag while the loop runs.
\<close>

subsection \<open>Data\<close>

type_synonym byte = "8 word"

text \<open>
  An SDL window or renderer pointer. \<open>None\<close> stands for every value the presence checks
  of \<^verbatim>\<open>shutdown\<close> treat as absent: Python's \<^verbatim>\<open>None\<close> (the initial value) and a NULL
  pointer returned by SDL.
\<close>

type_synonym handle = nat

text \<open>A queue item is the two-element tuple \<^verbatim>\<open>(msg_type, content)\<close> of the source.\<close>

type_synonym message = "string \<times> string"

text \<open>
  What a method of the core does to the outside world, in the order it does it: a
  \<^verbatim>\<open>self.queue.put\<close> on the channel it shares with the controller, or a call into SDL.
  The render and destroy calls carry the pointer they are given.
\<close>

datatype effect =
    Queue_put message
  | SDL_Init
  | SDL_GetError
  | SDL_CreateWindow
  | SDL_CreateRenderer "handle option"
  | SDL_PollEvent
  | SDL_RenderClear "handle option"
  | SDL_RenderPresent "handle option"
  | SDL_DestroyRenderer handle
  | SDL_DestroyWindow handle
  | SDL_Quit

text \<open>
  The attributes of \<^verbatim>\<open>EmulatorCore\<close>. The attribute \<^verbatim>\<open>queue\<close> is a reference to the
  controller's queue object, not a value of the core: each \<^verbatim>\<open>put\<close> on it is returned
  as a \<open>Queue_put\<close> effect and delivered to the controller's queue by \<open>deliver\<close> below.
\<close>

record core =
  running :: bool
  rom_data :: "byte list option"
  window :: "handle option"
  renderer :: "handle option"

definition init_core :: core where
  "init_core = \<lparr>running = False, rom_data = None, window = None, renderer = None\<rparr>"

subsection \<open>The queue: \<^verbatim>\<open>queue.Queue()\<close>, unbounded\<close>

definition put :: "message \<Rightarrow> message list \<Rightarrow> message list" where
  "put m q = q @ [m]"

text \<open>\<^verbatim>\<open>get_nowait\<close>: \<open>None\<close> is the exception \<^verbatim>\<open>queue.Empty\<close>.\<close>

fun get_nowait :: "message list \<Rightarrow> (message \<times> message list) option" where
  "get_nowait [] = None"
| "get_nowait (m # q) = Some (m, q)"

fun deliver :: "effect list \<Rightarrow> message list \<Rightarrow> message list" where
  "deliver [] q = q"
| "deliver (Queue_put m # es) q = deliver es (put m q)"
| "deliver (_ # es) q = deliver es q"

subsection \<open>\<^verbatim>\<open>EmulatorCore.load_rom\<close>\<close>

text \<open>
  The file system: for a path, either the text \<^verbatim>\<open>str(e)\<close> of the exception that
  \<^verbatim>\<open>open\<close> or \<^verbatim>\<open>read\<close> raises, or the bytes of the file.
\<close>

type_synonym filesystem = "string \<Rightarrow> string + byte list"

text \<open>\<^verbatim>\<open>str.split(sep)\<close> for a one-character separator.\<close>

fun split_on :: "char \<Rightarrow> string \<Rightarrow> string list" where
  "split_on sep [] = [[]]"
| "split_on sep (c # cs) =
     (if c = sep then [] # split_on sep cs
      else (case split_on sep cs of
              [] \<Rightarrow> [[c]]
            | p # ps \<Rightarrow> (c # p) # ps))"

text \<open>
  \<^verbatim>\<open>Path(path).name\<close> for a POSIX path: the path is split at \<^verbatim>\<open>/\<close>, empty and \<^verbatim>\<open>.\<close>
  components are dropped, and the name is the last component left, or the empty string.
\<close>

definition path_name :: "string \<Rightarrow> string" where
  "path_name path =
     (case filter (\<lambda>x. x \<noteq> [] \<and> x \<noteq> ''.'') (split_on CHR ''/'' path) of
        [] \<Rightarrow> []
      | p # ps \<Rightarrow> last (p # ps))"

text \<open>The result is the returned boolean, the core afterwards, and the effects.\<close>

definition load_rom :: "filesystem \<Rightarrow> string \<Rightarrow> core \<Rightarrow> bool \<times> core \<times> effect list" where
  "load_rom fs path c =
     (case fs path of
        Inr bytes \<Rightarrow>
          (True, c\<lparr>rom_data := Some bytes\<rparr>,
           [Queue_put (''log'', ''Loaded ROM: '' @ path_name path)])
      | Inl e \<Rightarrow>
          (False, c, [Queue_put (''error'', ''ROM loading failed: '' @ e)]))"

subsection \<open>\<^verbatim>\<open>EmulatorCore.init_video\<close> and \<^verbatim>\<open>shutdown\<close>\<close>

text \<open>
  A method that may raise returns the core as the method left it, the effects so far and
  the text \<^verbatim>\<open>str(e)\<close> of the exception, \<open>None\<close> when it returned normally.
\<close>

type_synonym outcome = "core \<times> effect list \<times> string option"

text \<open>
  What SDL answers during \<^verbatim>\<open>init_video\<close>: the return value of \<^verbatim>\<open>SDL_Init\<close>, the text
  that \<^verbatim>\<open>{SDL_GetError()}\<close> formats to, and the pointers \<^verbatim>\<open>SDL_CreateWindow\<close> and
  \<^verbatim>\<open>SDL_CreateRenderer\<close> return (\<open>None\<close>: NULL, the creation failed).
\<close>

record video_env =
  init_status :: int
  error_text :: string
  created_window :: "handle option"
  created_renderer :: "handle option"

definition init_video :: "video_env \<Rightarrow> core \<Rightarrow> outcome" where
  "init_video v c =
     (if init_status v \<noteq> 0 then
        (c, [SDL_Init, SDL_GetError], Some (''SDL initialization failed: '' @ error_text v))
      else
        (c\<lparr>window := created_window v, renderer := created_renderer v\<rparr>,
         [SDL_Init, SDL_CreateWindow, SDL_CreateRenderer (created_window v)], None))"

definition shutdown :: "core \<Rightarrow> core \<times> effect list" where
  "shutdown c =
     (c, (case renderer c of Some r \<Rightarrow> [SDL_DestroyRenderer r] | None \<Rightarrow> [])
         @ (case window c of Some w \<Rightarrow> [SDL_DestroyWindow w] | None \<Rightarrow> [])
         @ [SDL_Quit])"

subsection \<open>The loop body\<close>

text \<open>
  What happens around one iteration of the loop: the answers of the successive
  \<^verbatim>\<open>SDL_PollEvent\<close> calls (\<open>Inr t\<close>: the call returned 1 with an event of type \<open>t\<close>;
  \<open>Inl e\<close>: the call raised \<open>e\<close>; after the last answer the call returns 0), whether
  \<^verbatim>\<open>SDL_RenderClear\<close> or \<^verbatim>\<open>SDL_RenderPresent\<close> raises, and whether the controller's
  \<^verbatim>\<open>stop_emulation\<close> writes the run flag before the loop condition is read again.
\<close>

record frame =
  polls :: "(string + nat) list"
  clear_raises :: "string option"
  present_raises :: "string option"
  stop_request :: bool

definition SDL_QUIT :: nat where
  "SDL_QUIT = 0x100"

fun process_input :: "(string + nat) list \<Rightarrow> core \<Rightarrow> outcome" where
  "process_input [] c = (c, [SDL_PollEvent], None)"
| "process_input (Inl e # ps) c = (c, [SDL_PollEvent], Some e)"
| "process_input (Inr t # ps) c =
     (case process_input ps (if t = SDL_QUIT then c\<lparr>running := False\<rparr> else c) of
        (c', es, x) \<Rightarrow> (c', SDL_PollEvent # es, x))"

definition execute_frame :: "core \<Rightarrow> outcome" where
  "execute_frame c = (c, [], None)"

definition render_frame :: "frame \<Rightarrow> core \<Rightarrow> outcome" where
  "render_frame f c =
     (case clear_raises f of
        Some e \<Rightarrow> (c, [SDL_RenderClear (renderer c)], Some e)
      | None \<Rightarrow>
          (c, [SDL_RenderClear (renderer c), SDL_RenderPresent (renderer c)],
           present_raises f))"

text \<open>Statement sequencing: an exception skips what follows.\<close>

fun and_then :: "outcome \<Rightarrow> (core \<Rightarrow> outcome) \<Rightarrow> outcome" where
  "and_then (c, es, Some e) k = (c, es, Some e)"
| "and_then (c, es, None) k = (case k c of (c', es', x) \<Rightarrow> (c', es @ es', x))"

definition loop_body :: "frame \<Rightarrow> core \<Rightarrow> outcome" where
  "loop_body f c =
     and_then (and_then (process_input (polls f) c) execute_frame) (render_frame f)"

subsection \<open>\<^verbatim>\<open>EmulatorCore.run\<close>\<close>

definition request_stop :: "bool \<Rightarrow> core \<Rightarrow> core" where
  "request_stop b c = (if b then c\<lparr>running := False\<rparr> else c)"

text \<open>
  \<^verbatim>\<open>while self.running: ...\<close> over the frames the environment describes. \<open>None\<close>: the
  flag is still true when the description ends, the loop has not exited.
\<close>

fun run_loop :: "frame list \<Rightarrow> core \<Rightarrow> outcome option" where
  "run_loop [] c = (if running c then None else Some (c, [], None))"
| "run_loop (f # fs) c =
     (if running c then
        (case loop_body f c of
           (c1, es1, Some e) \<Rightarrow> Some (c1, es1, Some e)
         | (c1, es1, None) \<Rightarrow>
             (case run_loop fs (request_stop (stop_request f) c1) of
                None \<Rightarrow> None
              | Some (c2, es2, x) \<Rightarrow> Some (c2, es1 @ es2, x)))
      else Some (c, [], None))"

text \<open>
  The environment of one call of \<^verbatim>\<open>run\<close>: SDL's answers during \<^verbatim>\<open>init_video\<close>, whether
  the controller's stop lands before the loop condition is first read, and the frames.
\<close>

record run_env =
  video :: video_env
  stop_early :: bool
  frames :: "frame list"

text \<open>The \<^verbatim>\<open>try\<close> block.\<close>

definition run_try :: "run_env \<Rightarrow> core \<Rightarrow> outcome option" where
  "run_try env c =
     (case init_video (video env) c of
        (c1, es1, Some e) \<Rightarrow> Some (c1, es1, Some e)
      | (c1, es1, None) \<Rightarrow>
          (case run_loop (frames env) (request_stop (stop_early env) c1) of
             None \<Rightarrow> None
           | Some (c2, es2, x) \<Rightarrow> Some (c2, es1 @ es2, x)))"

text \<open>The \<^verbatim>\<open>except Exception as e\<close> clause.\<close>

definition on_exception :: "string option \<Rightarrow> effect list" where
  "on_exception x = (case x of None \<Rightarrow> [] | Some e \<Rightarrow> [Queue_put (''error'', e)])"

text \<open>How \<^verbatim>\<open>run\<close> leaves the \<^verbatim>\<open>try\<close> statement: the \<^verbatim>\<open>except\<close> clause, then \<^verbatim>\<open>finally\<close>.\<close>

definition run_exit :: "core \<Rightarrow> string option \<Rightarrow> core \<times> effect list" where
  "run_exit c x = (case shutdown c of (c', es) \<Rightarrow> (c', on_exception x @ es))"

definition run :: "run_env \<Rightarrow> core \<Rightarrow> (core \<times> effect list) option" where
  "run env c =
     (case run_try env (c\<lparr>running := True\<rparr>) of
        None \<Rightarrow> None
      | Some (c1, es1, x) \<Rightarrow>
          (case run_exit c1 x of (c2, es2) \<Rightarrow> Some (c2, es1 @ es2)))"

subsection \<open>The controller: \<^verbatim>\<open>EmulatorGUI\<close>\<close>

datatype button = NORMAL | DISABLED

datatype level = INFO | ERROR

text \<open>
  The \<^verbatim>\<open>EmulatorCore\<close> objects are kept in a store and referred to by their position in
  it: the controller's \<^verbatim>\<open>emulator_core\<close> and the target of every thread are such
  references, so a write to the run flag through one is seen through the other. A thread
  is the \<^verbatim>\<open>run\<close> of its target, and is in one of three stages: started and not yet at the
  loop, in the loop, or returned.
\<close>

datatype stage = Created | Looping | Finished

record thread =
  target :: nat
  stage :: stage

text \<open>
  The attributes the controller's operations read and write: the thread and core
  references, the queue, the state of the two buttons, the content of the log widget, and
  the records written to the log file; with them the objects they refer to: the cores
  constructed so far and the threads started so far. \<open>emulator_thread\<close> holds the
  position of the thread it refers to.
\<close>

record gui =
  emulator_thread :: "nat option"
  emulator_core :: "nat option"
  queue :: "message list"
  start_button :: button
  stop_button :: button
  log_text :: string
  log_file :: "(level \<times> string) list"
  cores :: "core list"
  threads :: "thread list"

definition init_gui :: gui where
  "init_gui =
     \<lparr>emulator_thread = None, emulator_core = None, queue = [],
      start_button = DISABLED, stop_button = DISABLED,
      log_text = [], log_file = [], cores = [], threads = []\<rparr>"

text \<open>The object \<^verbatim>\<open>self.emulator_core\<close> refers to, if any.\<close>

definition active_core :: "gui \<Rightarrow> core option" where
  "active_core g =
     (case emulator_core g of
        None \<Rightarrow> None
      | Some r \<Rightarrow> if r < length (cores g) then Some (cores g ! r) else None)"

definition log :: "string \<Rightarrow> bool \<Rightarrow> gui \<Rightarrow> gui" where
  "log message error g =
     g\<lparr>log_text := log_text g @ message @ [CHR 0x0A],
       log_file := log_file g @ [(if error then ERROR else INFO, message)]\<rparr>"

text \<open>The body of the \<^verbatim>\<open>try\<close> in \<^verbatim>\<open>check_queue\<close>, after the message was taken.\<close>

definition handle_message :: "message \<Rightarrow> gui \<Rightarrow> gui" where
  "handle_message m g =
     (case m of (msg_type, content) \<Rightarrow>
        if msg_type = ''log'' then log (''[INFO] '' @ content) False g
        else if msg_type = ''error'' then log (''[ERROR] '' @ content) True g
        else g)"

text \<open>One run of \<^verbatim>\<open>check_queue\<close>: the loop that ends at \<^verbatim>\<open>queue.Empty\<close>.\<close>

function check_queue :: "gui \<Rightarrow> gui" where
  "check_queue g =
     (case get_nowait (queue g) of
        None \<Rightarrow> g
      | Some (m, q) \<Rightarrow> check_queue (handle_message m (g\<lparr>queue := q\<rparr>)))"
  by pat_completeness auto
termination
proof (relation "measure (\<lambda>g. length (queue g))")
  show "wf (measure (\<lambda>g. length (queue g)))" by simp
next
  fix g :: gui and x m q
  assume "get_nowait (queue g) = Some x" and "(m, q) = x"
  then have "queue g = m # q" by (cases "queue g") auto
  moreover have "queue (handle_message m (g\<lparr>queue := q\<rparr>)) = q"
    by (cases m) (simp add: handle_message_def log_def)
  ultimately show "(handle_message m (g\<lparr>queue := q\<rparr>), g) \<in> measure (\<lambda>g. length (queue g))"
    by simp
qed

text \<open>
  \<^verbatim>\<open>EmulatorGUI.load_rom\<close>; \<open>path\<close> is what the file dialog returned, the empty string
  when it was cancelled. The new core is stored behind the cores made before.
\<close>

definition gui_load_rom :: "filesystem \<Rightarrow> string \<Rightarrow> gui \<Rightarrow> gui" where
  "gui_load_rom fs path g =
     (if path \<noteq> [] then
        (case load_rom fs path init_core of
           (ok, c, es) \<Rightarrow>
             let g1 = g\<lparr>emulator_core := Some (length (cores g)), cores := cores g @ [c],
                        queue := deliver es (queue g)\<rparr>
             in if ok then g1\<lparr>start_button := NORMAL, stop_button := DISABLED\<rparr> else g1)
      else g)"

definition start_emulation :: "gui \<Rightarrow> gui" where
  "start_emulation g =
     (case emulator_core g of
        Some r \<Rightarrow>
          log ''Emulation started'' False
            (g\<lparr>emulator_thread := Some (length (threads g)),
               threads := threads g @ [\<lparr>target = r, stage = Created\<rparr>],
               start_button := DISABLED, stop_button := NORMAL\<rparr>)
      | None \<Rightarrow> g)"

definition stop_emulation :: "gui \<Rightarrow> gui" where
  "stop_emulation g =
     (case emulator_core g of
        Some r \<Rightarrow>
          log ''Emulation stopped'' False
            (g\<lparr>cores := (cores g)[r := (cores g ! r)\<lparr>running := False\<rparr>],
               start_button := NORMAL, stop_button := DISABLED\<rparr>)
      | None \<Rightarrow> g)"

subsection \<open>Threads running beside the controller\<close>

text \<open>
  A step of thread \<open>i\<close> ends with its target core, its puts on the queue and its stage
  written back.
\<close>

definition settle :: "nat \<Rightarrow> nat \<Rightarrow> core \<Rightarrow> effect list \<Rightarrow> stage \<Rightarrow> gui \<Rightarrow> gui" where
  "settle i r c es s g =
     g\<lparr>cores := (cores g)[r := c], queue := deliver es (queue g),
       threads := (threads g)[i := \<lparr>target = r, stage = s\<rparr>]\<rparr>"

text \<open>
  The first step of a thread: \<^verbatim>\<open>run\<close> from its first statement up to the loop, or
  through \<^verbatim>\<open>except\<close> and \<^verbatim>\<open>finally\<close> when \<^verbatim>\<open>init_video\<close> raises.
\<close>

definition thread_begin :: "video_env \<Rightarrow> nat \<Rightarrow> gui \<Rightarrow> gui" where
  "thread_begin v i g =
     (if i < length (threads g) \<and> stage (threads g ! i) = Created
         \<and> target (threads g ! i) < length (cores g) then
        let r = target (threads g ! i) in
        (case init_video v ((cores g ! r)\<lparr>running := True\<rparr>) of
           (c1, es1, Some e) \<Rightarrow>
             (case run_exit c1 (Some e) of (c2, es2) \<Rightarrow> settle i r c2 (es1 @ es2) Finished g)
         | (c1, es1, None) \<Rightarrow> settle i r c1 es1 Looping g)
      else g)"

text \<open>
  A later step of a thread: the loop condition is read; when the flag is true the body
  runs once, and the thread stays in the loop unless the body raises; when it is false
  the thread leaves through \<^verbatim>\<open>finally\<close>. Stops come from the controller's
  \<^verbatim>\<open>stop_emulation\<close> between the steps; \<open>stop_request\<close> of the frame is not read here.
\<close>

definition thread_iterate :: "frame \<Rightarrow> nat \<Rightarrow> gui \<Rightarrow> gui" where
  "thread_iterate f i g =
     (if i < length (threads g) \<and> stage (threads g ! i) = Looping
         \<and> target (threads g ! i) < length (cores g) then
        let r = target (threads g ! i); c = cores g ! r in
        if running c then
          (case loop_body f c of
             (c1, es1, Some e) \<Rightarrow>
               (case run_exit c1 (Some e) of (c2, es2) \<Rightarrow> settle i r c2 (es1 @ es2) Finished g)
           | (c1, es1, None) \<Rightarrow> settle i r c1 es1 Looping g)
        else (case run_exit c None of (c2, es2) \<Rightarrow> settle i r c2 es2 Finished g)
      else g)"

text \<open>
  A schedule: the controller's operations and the steps of the threads, in the order
  they happen.
\<close>

datatype action =
    Load_rom string
  | Start
  | Stop
  | Check_queue
  | Begin nat video_env
  | Iterate nat frame

fun perform :: "filesystem \<Rightarrow> action \<Rightarrow> gui \<Rightarrow> gui" where
  "perform fs (Load_rom path) g = gui_load_rom fs path g"
| "perform fs Start g = start_emulation g"
| "perform fs Stop g = stop_emulation g"
| "perform fs Check_queue g = check_queue g"
| "perform fs (Begin i v) g = thread_begin v i g"
| "perform fs (Iterate i f) g = thread_iterate f i g"

definition exec :: "filesystem \<Rightarrow> action list \<Rightarrow> gui \<Rightarrow> gui" where
  "exec fs as g = fold (perform fs) as g"

text \<open>The targets of the threads that are in their loop.\<close>

definition active_loops :: "gui \<Rightarrow> nat list" where
  "active_loops g = map target (filter (\<lambda>t. stage t = Looping) (threads g))"

subsection \<open>Observations on effects and environments\<close>

text \<open>The release calls, which only \<^verbatim>\<open>shutdown\<close> makes, and the puts on the queue.\<close>

fun is_release :: "effect \<Rightarrow> bool" where
  "is_release (SDL_DestroyRenderer r) = True"
| "is_release (SDL_DestroyWindow w) = True"
| "is_release SDL_Quit = True"
| "is_release _ = False"

fun is_put :: "effect \<Rightarrow> bool" where
  "is_put (Queue_put m) = True"
| "is_put _ = False"

text \<open>An effect list is quiet when it holds neither a release call nor a put.\<close>

definition quiet :: "effect list \<Rightarrow> bool" where
  "quiet es = list_all (\<lambda>e. \<not> is_release e \<and> \<not> is_put e) es"

definition puts_of :: "effect list \<Rightarrow> effect list" where
  "puts_of es = filter is_put es"

definition quit_calls :: "effect list \<Rightarrow> effect list" where
  "quit_calls es = filter (\<lambda>e. e = SDL_Quit) es"

text \<open>The position of a release call in the order renderer, window, subsystem.\<close>

fun release_rank :: "effect \<Rightarrow> nat" where
  "release_rank (SDL_DestroyRenderer r) = 0"
| "release_rank (SDL_DestroyWindow w) = 1"
| "release_rank _ = 2"

text \<open>
  What a frame's answers make \<^verbatim>\<open>process_input\<close> do: the exception of the first poll
  that raises, and whether an \<^verbatim>\<open>SDL_QUIT\<close> event is delivered before that.
\<close>

fun poll_fault :: "(string + nat) list \<Rightarrow> string option" where
  "poll_fault [] = None"
| "poll_fault (Inl e # ps) = Some e"
| "poll_fault (Inr t # ps) = poll_fault ps"

fun quit_polled :: "(string + nat) list \<Rightarrow> bool" where
  "quit_polled [] = False"
| "quit_polled (Inl e # ps) = False"
| "quit_polled (Inr t # ps) = (t = SDL_QUIT \<or> quit_polled ps)"

text \<open>
  A frame ends the loop when its body raises, when it delivers a quit event, or when the
  controller's stop lands in it.
\<close>

definition frame_ends :: "frame \<Rightarrow> bool" where
  "frame_ends f =
     (poll_fault (polls f) \<noteq> None \<or> quit_polled (polls f) \<or> clear_raises f \<noteq> None
      \<or> present_raises f \<noteq> None \<or> stop_request f)"

text \<open>
  What the environment makes a call of \<^verbatim>\<open>run\<close> end with, read off the environment alone.
  The exception a frame's body raises is that of the first poll that raises, else that of
  \<^verbatim>\<open>SDL_RenderClear\<close>, else that of \<^verbatim>\<open>SDL_RenderPresent\<close>. The loop ends at the first
  frame that raises (\<open>Some (Some e)\<close>) or that delivers a quit event or a stop
  (\<open>Some None\<close>); \<open>None\<close>: no frame ends it. A call of \<^verbatim>\<open>run\<close> ends with the exception
  of a failed \<^verbatim>\<open>SDL_Init\<close>, or without one when the stop lands before the loop, or as the
  loop ends.
\<close>

definition frame_fault :: "frame \<Rightarrow> string option" where
  "frame_fault f =
     (case poll_fault (polls f) of
        Some e \<Rightarrow> Some e
      | None \<Rightarrow> (case clear_raises f of Some e \<Rightarrow> Some e | None \<Rightarrow> present_raises f))"

fun loop_fault :: "frame list \<Rightarrow> string option option" where
  "loop_fault [] = None"
| "loop_fault (f # fs) =
     (case frame_fault f of
        Some e \<Rightarrow> Some (Some e)
      | None \<Rightarrow> if quit_polled (polls f) \<or> stop_request f then Some None else loop_fault fs)"

definition run_fault :: "run_env \<Rightarrow> string option option" where
  "run_fault env =
     (if init_status (video env) \<noteq> 0 then
        Some (Some (''SDL initialization failed: '' @ error_text (video env)))
      else if stop_early env then Some None
      else loop_fault (frames env))"

text \<open>
  Any interleaving of producers and the consumer on one queue: a list of \<^verbatim>\<open>put\<close> and
  \<^verbatim>\<open>get_nowait\<close> calls in the order the queue's lock serialises them. The result is the
  queue afterwards and the messages the \<^verbatim>\<open>get_nowait\<close> calls returned, in order; a
  \<^verbatim>\<open>get_nowait\<close> on the empty queue raises \<^verbatim>\<open>queue.Empty\<close> and returns nothing.
\<close>

datatype channel_op = Push message | Pop

fun channel_run :: "channel_op list \<Rightarrow> message list \<Rightarrow> message list \<times> message list" where
  "channel_run [] q = (q, [])"
| "channel_run (Push m # ops) q = channel_run ops (put m q)"
| "channel_run (Pop # ops) q =
     (case get_nowait q of
        None \<Rightarrow> channel_run ops q
      | Some (m, q') \<Rightarrow> (case channel_run ops q' of (q'', got) \<Rightarrow> (q'', m # got)))"

fun pushed :: "channel_op list \<Rightarrow> message list" where
  "pushed [] = []"
| "pushed (Push m # ops) = m # pushed ops"
| "pushed (Pop # ops) = pushed ops"

subsection \<open>Example environments\<close>

definition example_fs :: filesystem where
  "example_fs path =
     (if path = ''/roms/test.z64'' then Inr [0x80, 0x37, 0x12, 0x40]
      else Inl ''[Errno 2] No such file or directory'')"

definition loaded_gui :: gui where
  "loaded_gui = gui_load_rom example_fs ''/roms/test.z64'' init_gui"

definition reloaded_gui :: gui where
  "reloaded_gui = gui_load_rom example_fs ''/roms/missing.z64'' loaded_gui"

definition failed_gui :: gui where
  "failed_gui = gui_load_rom example_fs ''/roms/missing.z64'' init_gui"

definition example_core :: core where
  "example_core = \<lparr>running = False, rom_data = None, window = Some 1, renderer = Some 2\<rparr>"

definition example_video :: video_env where
  "example_video =
     \<lparr>init_status = 0, error_text = ''No available video device'',
      created_window = Some 1, created_renderer = Some 2\<rparr>"

definition idle_frame :: frame where
  "idle_frame = \<lparr>polls = [], clear_raises = None, present_raises = None, stop_request = False\<rparr>"

definition faulting_env :: run_env where
  "faulting_env =
     \<lparr>video = example_video, stop_early = False,
      frames = [idle_frame, idle_frame\<lparr>present_raises := Some ''renderer lost''\<rparr>]\<rparr>"

definition faulting_effects :: "effect list" where
  "faulting_effects =
     [SDL_Init, SDL_CreateWindow, SDL_CreateRenderer (Some 1),
      SDL_PollEvent, SDL_RenderClear (Some 2), SDL_RenderPresent (Some 2),
      SDL_PollEvent, SDL_RenderClear (Some 2), SDL_RenderPresent (Some 2),
      Queue_put (''error'', ''renderer lost''),
      SDL_DestroyRenderer 2, SDL_DestroyWindow 1, SDL_Quit]"

text \<open>SDL is initialised and the window is created, the renderer is not.\<close>

definition no_renderer_video :: video_env where
  "no_renderer_video =
     \<lparr>init_status = 0, error_text = ''Couldn't find matching render driver'',
      created_window = Some 1, created_renderer = None\<rparr>"

definition quit_frame :: frame where
  "quit_frame = idle_frame\<lparr>polls := [Inr SDL_QUIT]\<rparr>"

text \<open>\<^verbatim>\<open>SDL_Init\<close> fails.\<close>

definition init_failure_env :: run_env where
  "init_failure_env =
     \<lparr>video = example_video\<lparr>init_status := - 1\<rparr>, stop_early = False, frames = []\<rparr>"

text \<open>A file system whose only file is named without a directory.\<close>

definition cwd_fs :: filesystem where
  "cwd_fs path =
     (if path = ''test.z64'' then Inr [0x80, 0x37, 0x12, 0x40]
      else Inl ''[Errno 2] No such file or directory'')"

definition example_messages :: "message list" where
  "example_messages = [(''log'', ''a''), (''error'', ''b''), (''log'', ''c'')]"

text \<open>
  Two schedules. In the first \<^verbatim>\<open>start_emulation\<close> is called twice in a row. In the second
  every call is one the buttons allow: start, stop while the first thread is in the loop,
  and start again before that thread has read the flag.
\<close>

definition double_start :: "action list" where
  "double_start =
     [Load_rom ''/roms/test.z64'', Start, Begin 0 example_video, Start, Begin 1 example_video]"

definition restart :: "action list" where
  "restart =
     [Load_rom ''/roms/test.z64'', Start, Begin 0 example_video, Stop, Start,
      Begin 1 example_video, Iterate 0 idle_frame, Iterate 1 idle_frame]"

section \<open>Auxiliary lemmas\<close>

subsection \<open>Path names\<close>

lemma split_on_append:
  "split_on sep (xs @ sep # ys) = split_on sep xs @ split_on sep ys"
proof (induction xs)
  case Nil
  then show ?case by simp
next
  case (Cons x xs)
  have ne: "split_on sep zs \<noteq> []" for zs
    by (induction zs) (auto split: list.splits)
  show ?case
  proof (cases "x = sep")
    case True
    with Cons show ?thesis by simp
  next
    case False
    obtain p ps where s: "split_on sep xs = p # ps"
      using ne[of xs] by (cases "split_on sep xs") auto
    with Cons False show ?thesis by simp
  qed
qed

lemma split_on_plain: "sep \<notin> set xs \<Longrightarrow> split_on sep xs = [xs]"
  by (induction xs) auto

lemma path_name_last:
  "path_name path =
     (let ps = filter (\<lambda>x. x \<noteq> [] \<and> x \<noteq> ''.'') (split_on CHR ''/'' path)
      in if ps = [] then [] else last ps)"
  by (simp add: path_name_def Let_def split: list.splits)

lemma path_name_file:
  assumes "CHR ''/'' \<notin> set name" and "name \<noteq> []" and "name \<noteq> ''.''"
  shows "path_name (dir @ CHR ''/'' # name) = name"
proof -
  have "split_on CHR ''/'' (dir @ CHR ''/'' # name) = split_on CHR ''/'' dir @ [name]"
    using assms(1) by (simp add: split_on_append split_on_plain)
  then have "filter (\<lambda>x. x \<noteq> [] \<and> x \<noteq> ''.'') (split_on CHR ''/'' (dir @ CHR ''/'' # name))
              = filter (\<lambda>x. x \<noteq> [] \<and> x \<noteq> ''.'') (split_on CHR ''/'' dir) @ [name]"
    using assms(2,3) by simp
  then show ?thesis
    by (simp add: path_name_last)
qed

lemma path_name_bare:
  assumes "CHR ''/'' \<notin> set name" and "name \<noteq> []" and "name \<noteq> ''.''"
  shows "path_name name = name"
  using assms by (simp add: path_name_last split_on_plain)

lemma path_name_component:
  assumes "dir = [] \<or> last dir = CHR ''/''"
    and "CHR ''/'' \<notin> set name" and "name \<noteq> []" and "name \<noteq> ''.''"
  shows "path_name (dir @ name) = name"
proof (cases "dir = []")
  case True
  with assms show ?thesis by (simp add: path_name_bare)
next
  case False
  with assms(1) obtain d where d: "dir = d @ [CHR ''/'']"
    by (metis append_butlast_last_id)
  have "path_name (d @ CHR ''/'' # name) = name"
    by (rule path_name_file[OF assms(2-4)])
  then show ?thesis unfolding d by simp
qed

lemma path_name_trailing_slash: "path_name (p @ ''/'') = path_name p"
proof -
  have "split_on CHR ''/'' (p @ ''/'') = split_on CHR ''/'' p @ [[]]"
    using split_on_append[of "CHR ''/''" p "[]"] by simp
  then show ?thesis by (simp add: path_name_last)
qed

lemma path_name_trailing_dot: "path_name (p @ ''/.'') = path_name p"
proof -
  have "split_on CHR ''/'' (p @ ''/.'') = split_on CHR ''/'' p @ [''.'']"
    using split_on_append[of "CHR ''/''" p "''.''"] by simp
  then show ?thesis by (simp add: path_name_last)
qed

subsection \<open>The queue\<close>

lemma channel_run_fifo:
  "channel_run ops q = (q', got) \<Longrightarrow> got @ q' = q @ pushed ops"
proof (induction ops q arbitrary: q' got rule: channel_run.induct)
  case (1 q)
  then show ?case by simp
next
  case (2 m ops q)
  then show ?case by (simp add: put_def)
next
  case (3 ops q)
  show ?case
  proof (cases q)
    case Nil
    with 3 show ?thesis by simp
  next
    case (Cons m q1)
    obtain q2 got2 where r: "channel_run ops q1 = (q2, got2)"
      by (cases "channel_run ops q1") auto
    from "3.IH"(2)[of "(m, q1)" m q1, OF _ _ r] Cons
    have "got2 @ q2 = q1 @ pushed ops" by simp
    with "3.prems" Cons r show ?thesis by auto
  qed
qed

lemma fold_put: "fold put ms q = q @ ms"
  by (induction ms arbitrary: q) (simp_all add: put_def)

lemma queue_handle_message [simp]: "queue (handle_message m g) = queue g"
  by (cases m) (simp add: handle_message_def log_def)

lemma handle_message_queue_update:
  "handle_message m (g\<lparr>queue := q\<rparr>) = (handle_message m g)\<lparr>queue := q\<rparr>"
  by (cases m) (simp add: handle_message_def log_def)

lemma check_queue_fold:
  "queue g = ms \<Longrightarrow> check_queue g = fold handle_message ms (g\<lparr>queue := []\<rparr>)"
proof (induction ms arbitrary: g)
  case Nil
  then show ?case by simp
next
  case (Cons m ms)
  have "check_queue g = check_queue (handle_message m (g\<lparr>queue := ms\<rparr>))"
    using Cons.prems by (subst check_queue.simps) simp
  also have "\<dots> = fold handle_message ms ((handle_message m (g\<lparr>queue := ms\<rparr>))\<lparr>queue := []\<rparr>)"
    by (rule Cons.IH) simp
  also have "\<dots> = fold handle_message (m # ms) (g\<lparr>queue := []\<rparr>)"
    by (simp add: handle_message_queue_update)
  finally show ?case .
qed

subsection \<open>The run loop\<close>

lemma quiet_append [simp]: "quiet (xs @ ys) \<longleftrightarrow> quiet xs \<and> quiet ys"
  by (simp add: quiet_def)

lemma process_input_result:
  "process_input ps c = (c', es, x) \<Longrightarrow>
     x = poll_fault ps \<and> quiet es \<and>
     c' = (if quit_polled ps then c\<lparr>running := False\<rparr> else c)"
proof (induction ps c arbitrary: c' es x rule: process_input.induct)
  case (1 c)
  then show ?case by (auto simp: quiet_def)
next
  case (2 e ps c)
  then show ?case by (auto simp: quiet_def)
next
  case (3 t ps c)
  obtain c1 es1 x1 where r: "process_input ps (if t = SDL_QUIT then c\<lparr>running := False\<rparr> else c) = (c1, es1, x1)"
    by (cases "process_input ps (if t = SDL_QUIT then c\<lparr>running := False\<rparr> else c)") auto
  from "3.IH"[OF r] r "3.prems" show ?case
    by (auto simp: quiet_def)
qed

lemma loop_body_result:
  assumes "loop_body f c = (c', es, x)"
  shows "quiet es"
    and "x = None \<Longrightarrow> c' = (if quit_polled (polls f) then c\<lparr>running := False\<rparr> else c)"
    and "x = None \<longleftrightarrow> poll_fault (polls f) = None \<and> clear_raises f = None \<and> present_raises f = None"
proof -
  obtain c1 es1 x1 where p: "process_input (polls f) c = (c1, es1, x1)"
    by (cases "process_input (polls f) c") auto
  from process_input_result[OF p]
  have x1: "x1 = poll_fault (polls f)" and q1: "quiet es1"
    and c1: "c1 = (if quit_polled (polls f) then c\<lparr>running := False\<rparr> else c)"
    by auto
  have b: "and_then (and_then (c1, es1, x1) execute_frame) (render_frame f) = (c', es, x)"
    using assms p by (simp add: loop_body_def)
  show "quiet es" using b q1
    by (cases x1; cases "clear_raises f")
       (auto simp: execute_frame_def render_frame_def quiet_def)
  show "x = None \<Longrightarrow> c' = (if quit_polled (polls f) then c\<lparr>running := False\<rparr> else c)"
    using b unfolding c1[symmetric]
    by (cases x1; cases "clear_raises f")
       (auto simp: execute_frame_def render_frame_def)
  show "x = None \<longleftrightarrow> poll_fault (polls f) = None \<and> clear_raises f = None \<and> present_raises f = None"
    using b unfolding x1[symmetric]
    by (cases x1; cases "clear_raises f")
       (auto simp: execute_frame_def render_frame_def)
qed

lemma run_loop_returns:
  "run_loop fs c \<noteq> None \<longleftrightarrow> \<not> running c \<or> (\<exists>f\<in>set fs. frame_ends f)"
proof (induction fs arbitrary: c)
  case Nil
  then show ?case by simp
next
  case (Cons f fs)
  show ?case
  proof (cases "running c")
    case False
    then show ?thesis by simp
  next
    case True
    obtain c1 es1 x where b: "loop_body f c = (c1, es1, x)"
      by (cases "loop_body f c") auto
    note r = loop_body_result[OF b]
    show ?thesis
    proof (cases x)
      case (Some e)
      with b True r(3) show ?thesis by (auto simp: frame_ends_def)
    next
      case None
      with r have c1: "c1 = (if quit_polled (polls f) then c\<lparr>running := False\<rparr> else c)"
        and nf: "poll_fault (polls f) = None" "clear_raises f = None" "present_raises f = None"
        by auto
      have "running (request_stop (stop_request f) c1) \<longleftrightarrow> \<not> frame_ends f"
        using c1 nf True by (auto simp: request_stop_def frame_ends_def)
      with Cons.IH[of "request_stop (stop_request f) c1"] b None True
      show ?thesis by (auto split: option.splits)
    qed
  qed
qed

lemma run_loop_quiet:
  "run_loop fs c = Some (c', es, x) \<Longrightarrow> quiet es"
proof (induction fs arbitrary: c c' es x)
  case Nil
  then show ?case by (auto simp: quiet_def split: if_splits)
next
  case (Cons f fs)
  show ?case
  proof (cases "running c")
    case False
    with Cons.prems show ?thesis by (auto simp: quiet_def)
  next
    case True
    obtain c1 es1 x1 where b: "loop_body f c = (c1, es1, x1)"
      by (cases "loop_body f c") auto
    note q = loop_body_result(1)[OF b]
    show ?thesis
    proof (cases x1)
      case (Some e)
      with b True Cons.prems q show ?thesis by auto
    next
      case None
      with b True Cons.prems obtain c2 es2 where
        rec: "run_loop fs (request_stop (stop_request f) c1) = Some (c2, es2, x)"
        and es: "es = es1 @ es2"
        by (auto split: option.splits)
      from Cons.IH[OF rec] q es show ?thesis by (simp add: quiet_def)
    qed
  qed
qed

lemma init_video_quiet: "init_video v c = (c', es, x) \<Longrightarrow> quiet es"
  by (auto simp: init_video_def quiet_def split: if_splits)

lemma run_try_quiet:
  assumes "run_try env c = Some (c', es, x)"
  shows "quiet es"
proof -
  obtain c1 es1 x1 where i: "init_video (video env) c = (c1, es1, x1)"
    by (cases "init_video (video env) c") auto
  note q1 = init_video_quiet[OF i]
  show ?thesis
  proof (cases x1)
    case (Some e)
    with assms i q1 show ?thesis by (simp add: run_try_def)
  next
    case None
    with assms i obtain c2 es2 where
      l: "run_loop (frames env) (request_stop (stop_early env) c1) = Some (c2, es2, x)"
      and es: "es = es1 @ es2"
      by (auto simp: run_try_def split: option.splits)
    from run_loop_quiet[OF l] q1 es show ?thesis by simp
  qed
qed

lemma run_try_returns:
  assumes "running c"
  shows "run_try env c \<noteq> None \<longleftrightarrow>
           init_status (video env) \<noteq> 0 \<or> stop_early env \<or> (\<exists>f\<in>set (frames env). frame_ends f)"
proof (cases "init_status (video env) = 0")
  case False
  then show ?thesis by (simp add: run_try_def init_video_def)
next
  case True
  define c1 where
    "c1 = c\<lparr>window := created_window (video env), renderer := created_renderer (video env)\<rparr>"
  define c2 where "c2 = request_stop (stop_early env) c1"
  have i: "init_video (video env) c =
             (c1, [SDL_Init, SDL_CreateWindow, SDL_CreateRenderer (created_window (video env))], None)"
    using True by (simp add: init_video_def c1_def)
  have "run_try env c = None \<longleftrightarrow> run_loop (frames env) c2 = None"
    unfolding run_try_def i c2_def by (simp split: option.splits)
  moreover have "run_loop (frames env) c2 \<noteq> None \<longleftrightarrow>
                   \<not> running c2 \<or> (\<exists>f\<in>set (frames env). frame_ends f)"
    by (rule run_loop_returns)
  moreover have "running c2 \<longleftrightarrow> \<not> stop_early env"
    using assms by (simp add: c2_def c1_def request_stop_def)
  ultimately show ?thesis using True by argo
qed

lemma loop_body_fault:
  assumes "loop_body f c = (c', es, x)"
  shows "x = frame_fault f"
proof -
  obtain c1 es1 x1 where p: "process_input (polls f) c = (c1, es1, x1)"
    by (cases "process_input (polls f) c") auto
  from process_input_result[OF p] have x1: "poll_fault (polls f) = x1" by simp
  have b: "and_then (and_then (c1, es1, x1) execute_frame) (render_frame f) = (c', es, x)"
    using assms p by (simp add: loop_body_def)
  show ?thesis
    using b unfolding frame_fault_def x1
    by (auto simp: execute_frame_def render_frame_def split: option.splits)
qed

lemma run_loop_fault:
  assumes "running c"
  shows "(run_loop fs c = None \<longleftrightarrow> loop_fault fs = None)
         \<and> (\<forall>c' es x. run_loop fs c = Some (c', es, x) \<longrightarrow> loop_fault fs = Some x)"
  using assms
proof (induction fs arbitrary: c)
  case Nil
  then show ?case by simp
next
  case (Cons f fs)
  obtain c1 es1 x where b: "loop_body f c = (c1, es1, x)"
    by (cases "loop_body f c") auto
  note xf = loop_body_fault[OF b]
  show ?case
  proof (cases x)
    case (Some e)
    with xf have ff: "frame_fault f = Some e" by simp
    from b Cons.prems Some ff show ?thesis by simp
  next
    case None
    with xf have ff: "frame_fault f = None" by simp
    from loop_body_result(2)[OF b None]
    have c1: "c1 = (if quit_polled (polls f) then c\<lparr>running := False\<rparr> else c)" .
    let ?c2 = "request_stop (stop_request f) c1"
    show ?thesis
    proof (cases "quit_polled (polls f) \<or> stop_request f")
      case True
      then have "\<not> running ?c2" using c1 by (auto simp: request_stop_def)
      then have "run_loop fs ?c2 = Some (?c2, [], None)" by (cases fs) simp_all
      with b None Cons.prems ff True show ?thesis by auto
    next
      case False
      then have r: "running ?c2" using c1 Cons.prems by (simp add: request_stop_def)
      from Cons.IH[OF r] b None Cons.prems ff False show ?thesis
        by (auto split: option.splits)
    qed
  qed
qed

lemma run_try_fault:
  assumes "running c"
  shows "(run_try env c = None \<longleftrightarrow> run_fault env = None)
         \<and> (\<forall>c' es x. run_try env c = Some (c', es, x) \<longrightarrow> run_fault env = Some x)"
proof (cases "init_status (video env) = 0")
  case False
  then show ?thesis by (simp add: run_try_def init_video_def run_fault_def)
next
  case True
  define c1 where
    "c1 = c\<lparr>window := created_window (video env), renderer := created_renderer (video env)\<rparr>"
  have i: "init_video (video env) c =
             (c1, [SDL_Init, SDL_CreateWindow, SDL_CreateRenderer (created_window (video env))], None)"
    using True by (simp add: init_video_def c1_def)
  show ?thesis
  proof (cases "stop_early env")
    case s: True
    then have "run_loop (frames env) (request_stop (stop_early env) c1)
                 = Some (c1\<lparr>running := False\<rparr>, [], None)"
      by (cases "frames env") (simp_all add: request_stop_def)
    then show ?thesis using True s unfolding run_try_def i
      by (simp add: run_fault_def)
  next
    case s: False
    have r: "running c1" using assms by (simp add: c1_def)
    from run_loop_fault[OF r, of "frames env"] True s show ?thesis
      unfolding run_try_def i
      by (auto simp: run_fault_def request_stop_def split: option.splits)
  qed
qed

lemma count_quiet:
  "quiet es \<Longrightarrow> filter (\<lambda>e. e = SDL_Quit) es = [] \<and> filter is_put es = []"
  by (induction es) (auto simp: quiet_def)

lemma shutdown_effects:
  "filter (\<lambda>e. e = SDL_Quit) (snd (shutdown c)) = [SDL_Quit] \<and> filter is_put (snd (shutdown c)) = []"
  by (simp add: shutdown_def split: option.splits)

subsection \<open>A thread on its own is \<^verbatim>\<open>run\<close>\<close>

text \<open>
  The steps of a thread that nothing interferes with, taken one after the other, do what
  \<^verbatim>\<open>run\<close> does in one piece: the same core, the same messages on the queue, and the
  thread has returned. One step more than there are frames is needed: the last one reads
  the flag and leaves.
\<close>

lemma deliver_append: "deliver (es1 @ es2) q = deliver es2 (deliver es1 q)"
  by (induction es1 q rule: deliver.induct) simp_all

lemma settle_settle:
  "settle i r c2 es2 s2 (settle i r c1 es1 s1 g) = settle i r c2 (es1 @ es2) s2 g"
  by (simp add: settle_def deliver_append)

lemma thread_iterate_finished:
  "i < length (threads g) \<Longrightarrow> stage (threads g ! i) = Finished \<Longrightarrow> thread_iterate f i g = g"
  by (simp add: thread_iterate_def)

lemma settle_thread:
  "i < length (threads g) \<Longrightarrow>
     length (threads (settle i r c es s g)) = length (threads g)
     \<and> threads (settle i r c es s g) ! i = \<lparr>target = r, stage = s\<rparr>"
  by (simp add: settle_def)

lemma settle_core:
  "r < length (cores g) \<Longrightarrow>
     length (cores (settle i r c es s g)) = length (cores g) \<and> cores (settle i r c es s g) ! r = c"
  by (simp add: settle_def)

lemma thread_iterate_settled:
  assumes "i < length (threads g)"
  shows "thread_iterate f i (settle i r c es Finished g) = settle i r c es Finished g"
proof -
  have "i < length (threads (settle i r c es Finished g))"
    and "stage (threads (settle i r c es Finished g) ! i) = Finished"
    using settle_thread[OF assms, of r c es Finished] assms by simp_all
  then show ?thesis by (rule thread_iterate_finished)
qed

lemma fold_iterate_settled:
  assumes "i < length (threads g)"
  shows "fold (\<lambda>f. thread_iterate f i) fs (settle i r c es Finished g) = settle i r c es Finished g"
  by (induction fs) (simp_all add: thread_iterate_settled[OF assms])

lemma iterate_is_run_loop:
  assumes "i < length (threads g)" and "threads g ! i = \<lparr>target = r, stage = Looping\<rparr>"
    and "r < length (cores g)"
    and "run_loop fs (cores g ! r) = Some (c1, es1, x)"
    and "\<forall>f\<in>set fs. \<not> stop_request f"
    and "run_exit c1 x = (c2, es2)"
  shows "fold (\<lambda>f. thread_iterate f i) (fs @ [f0]) g = settle i r c2 (es1 @ es2) Finished g"
  using assms
proof (induction fs arbitrary: g es1)
  case Nil
  then have "\<not> running (cores g ! r)" and "c1 = cores g ! r" and "es1 = []" and "x = None"
    by (auto split: if_splits)
  with Nil show ?case by (simp add: thread_iterate_def)
next
  case (Cons f fs)
  let ?c = "cores g ! r"
  show ?case
  proof (cases "running ?c")
    case False
    with Cons.prems have e: "c1 = ?c" "es1 = []" "x = None" by auto
    have s: "thread_iterate f i g = settle i r c2 es2 Finished g"
      using Cons.prems False e by (simp add: thread_iterate_def)
    with e fold_iterate_settled[OF Cons.prems(1)] show ?thesis
      by (simp add: thread_iterate_settled[OF Cons.prems(1)])
  next
    case True
    obtain b1 bs bx where b: "loop_body f ?c = (b1, bs, bx)"
      by (cases "loop_body f ?c") auto
    show ?thesis
    proof (cases bx)
      case (Some e)
      with Cons.prems True b have e1: "c1 = b1" "es1 = bs" "x = Some e" by auto
      have s: "thread_iterate f i g = settle i r c2 (bs @ es2) Finished g"
        using Cons.prems True b Some e1 by (simp add: thread_iterate_def)
      with e1 fold_iterate_settled[OF Cons.prems(1)] show ?thesis
        by (simp add: thread_iterate_settled[OF Cons.prems(1)])
    next
      case None
      let ?g = "settle i r b1 bs Looping g"
      have s: "thread_iterate f i g = ?g"
        using Cons.prems True b None by (simp add: thread_iterate_def)
      from Cons.prems True b None obtain es' where
        rec: "run_loop fs b1 = Some (c1, es', x)" and es1: "es1 = bs @ es'"
        by (auto simp: request_stop_def split: option.splits)
      have "fold (\<lambda>f. thread_iterate f i) (fs @ [f0]) ?g = settle i r c2 (es' @ es2) Finished ?g"
      proof (rule Cons.IH)
        show "i < length (threads ?g)" "threads ?g ! i = \<lparr>target = r, stage = Looping\<rparr>"
          using settle_thread[OF Cons.prems(1), of r b1 bs Looping] Cons.prems(1) by simp_all
        show "r < length (cores ?g)" "run_loop fs (cores ?g ! r) = Some (c1, es', x)"
          using settle_core[OF Cons.prems(3), of i b1 bs Looping] Cons.prems(3) rec by simp_all
        show "\<forall>f\<in>set fs. \<not> stop_request f" using Cons.prems(5) by simp
        show "run_exit c1 x = (c2, es2)" by (rule Cons.prems(6))
      qed
      with s es1 show ?thesis by (simp add: settle_settle)
    qed
  qed
qed

lemma thread_alone_is_run:
  assumes "i < length (threads g)" and "threads g ! i = \<lparr>target = r, stage = Created\<rparr>"
    and "r < length (cores g)"
    and "\<not> stop_early env" and "\<forall>f\<in>set (frames env). \<not> stop_request f"
    and "run env (cores g ! r) = Some (c', es)"
  shows "fold (\<lambda>f. thread_iterate f i) (frames env @ [f0]) (thread_begin (video env) i g)
           = settle i r c' es Finished g"
proof -
  let ?c = "(cores g ! r)\<lparr>running := True\<rparr>"
  obtain c1 es1 x1 where iv: "init_video (video env) ?c = (c1, es1, x1)"
    by (cases "init_video (video env) ?c") auto
  show ?thesis
  proof (cases x1)
    case (Some e)
    obtain c2 es2 where ex: "run_exit c1 (Some e) = (c2, es2)"
      by (cases "run_exit c1 (Some e)") auto
    have b: "thread_begin (video env) i g = settle i r c2 (es1 @ es2) Finished g"
      using assms(1-3) iv Some ex by (simp add: thread_begin_def)
    have "c' = c2 \<and> es = es1 @ es2"
      using assms(6) iv Some ex by (simp add: run_def run_try_def)
    with b fold_iterate_settled[OF assms(1)] show ?thesis
      by (simp add: thread_iterate_settled[OF assms(1)])
  next
    case None
    let ?g = "settle i r c1 es1 Looping g"
    have b: "thread_begin (video env) i g = ?g"
      using assms(1-3) iv None by (simp add: thread_begin_def)
    from assms(4,6) iv None obtain c3 es3 x3 c4 es4 where
      l: "run_loop (frames env) c1 = Some (c3, es3, x3)" and ex: "run_exit c3 x3 = (c4, es4)"
      and r: "c' = c4" "es = (es1 @ es3) @ es4"
      by (auto simp: run_def run_try_def request_stop_def split: option.splits prod.splits)
    have "fold (\<lambda>f. thread_iterate f i) (frames env @ [f0]) ?g = settle i r c4 (es3 @ es4) Finished ?g"
    proof (rule iterate_is_run_loop)
      show "i < length (threads ?g)" "threads ?g ! i = \<lparr>target = r, stage = Looping\<rparr>"
        using settle_thread[OF assms(1), of r c1 es1 Looping] assms(1) by simp_all
      show "r < length (cores ?g)" "run_loop (frames env) (cores ?g ! r) = Some (c3, es3, x3)"
        using settle_core[OF assms(3), of i c1 es1 Looping] assms(3) l by simp_all
      show "\<forall>f\<in>set (frames env). \<not> stop_request f" by (rule assms(5))
      show "run_exit c3 x3 = (c4, es4)" by (rule ex)
    qed
    with b r show ?thesis by (simp add: settle_settle)
  qed
qed


section \<open>Properties\<close>

subsection \<open>The run loop and its single exit\<close>

text \<open>
  C1. A call of \<^verbatim>\<open>run\<close> returns exactly when \<^verbatim>\<open>SDL_Init\<close> fails or the loop is made to
  exit: a frame raises, a quit event arrives, or the controller asks for a stop. When
  \<^verbatim>\<open>SDL_Init\<close> fails the loop is not entered: the effects are the two calls of
  \<^verbatim>\<open>init_video\<close>, the error message with the text of \<^verbatim>\<open>SDL_GetError\<close> on the queue, and
  one \<^verbatim>\<open>shutdown\<close>. Whenever \<^verbatim>\<open>run\<close> returns, on each of these paths, its effects are
  those of the \<^verbatim>\<open>try\<close> block, which hold no release call and no put, then exactly one
  error message on the queue, with the text of the exception, when \<^verbatim>\<open>init_video\<close> or a
  frame raised and none when the loop ended by the flag, then the effects of one
  \<^verbatim>\<open>shutdown\<close>: the unconditional \<^verbatim>\<open>SDL_Quit\<close> of \<^verbatim>\<open>shutdown\<close> occurs exactly once, and
  the error message is put before it.
\<close>

theorem run_shuts_down_once:
  "(run env c \<noteq> None \<longleftrightarrow>
      init_status (video env) \<noteq> 0 \<or> stop_early env \<or> (\<exists>f\<in>set (frames env). frame_ends f))
   \<and> (run env c = None \<longleftrightarrow> run_fault env = None)
   \<and> (init_status (video env) \<noteq> 0 \<longrightarrow>
        run env c =
          Some (c\<lparr>running := True\<rparr>,
                [SDL_Init, SDL_GetError,
                 Queue_put (''error'', ''SDL initialization failed: '' @ error_text (video env))]
                @ snd (shutdown (c\<lparr>running := True\<rparr>))))
   \<and> (\<forall>c' es. run env c = Some (c', es) \<longrightarrow>
        (\<exists>pre x. run_try env (c\<lparr>running := True\<rparr>) = Some (c', pre, x)
           \<and> run_fault env = Some x
           \<and> quiet pre
           \<and> es = pre @ on_exception x @ snd (shutdown c')
           \<and> puts_of es = (case x of None \<Rightarrow> [] | Some e \<Rightarrow> [Queue_put (''error'', e)])
           \<and> quit_calls es = [SDL_Quit]))"
proof (intro conjI allI impI)
  have n: "run env c = None \<longleftrightarrow> run_try env (c\<lparr>running := True\<rparr>) = None"
    by (simp add: run_def run_exit_def shutdown_def split: option.splits)
  moreover have "run_try env (c\<lparr>running := True\<rparr>) \<noteq> None \<longleftrightarrow>
      init_status (video env) \<noteq> 0 \<or> stop_early env \<or> (\<exists>f\<in>set (frames env). frame_ends f)"
    by (rule run_try_returns) simp
  ultimately show "run env c \<noteq> None \<longleftrightarrow>
      init_status (video env) \<noteq> 0 \<or> stop_early env \<or> (\<exists>f\<in>set (frames env). frame_ends f)"
    by argo
  have "run_try env (c\<lparr>running := True\<rparr>) = None \<longleftrightarrow> run_fault env = None"
    using run_try_fault[of "c\<lparr>running := True\<rparr>" env] by simp
  with n show "run env c = None \<longleftrightarrow> run_fault env = None" by argo
next
  assume "init_status (video env) \<noteq> 0"
  then show "run env c =
          Some (c\<lparr>running := True\<rparr>,
                [SDL_Init, SDL_GetError,
                 Queue_put (''error'', ''SDL initialization failed: '' @ error_text (video env))]
                @ snd (shutdown (c\<lparr>running := True\<rparr>)))"
    by (simp add: run_def run_try_def init_video_def run_exit_def on_exception_def shutdown_def)
next
  fix c' es
  assume r: "run env c = Some (c', es)"
  then obtain pre x where t: "run_try env (c\<lparr>running := True\<rparr>) = Some (c', pre, x)"
    and es: "es = pre @ on_exception x @ snd (shutdown c')"
    by (auto simp: run_def run_exit_def shutdown_def split: option.splits)
  have f: "run_fault env = Some x"
    using run_try_fault[of "c\<lparr>running := True\<rparr>" env] t by simp
  note q = run_try_quiet[OF t]
  have p: "puts_of es = (case x of None \<Rightarrow> [] | Some e \<Rightarrow> [Queue_put (''error'', e)])"
    using es count_quiet[OF q] shutdown_effects[of c']
    by (simp add: on_exception_def puts_of_def quit_calls_def split: option.splits)
  have s: "quit_calls es = [SDL_Quit]"
    using es count_quiet[OF q] shutdown_effects[of c']
    by (simp add: on_exception_def puts_of_def quit_calls_def split: option.splits)
  from t f q es p s
  show "\<exists>pre x. run_try env (c\<lparr>running := True\<rparr>) = Some (c', pre, x)
           \<and> run_fault env = Some x
           \<and> quiet pre
           \<and> es = pre @ on_exception x @ snd (shutdown c')
           \<and> puts_of es = (case x of None \<Rightarrow> [] | Some e \<Rightarrow> [Queue_put (''error'', e)])
           \<and> quit_calls es = [SDL_Quit]"
    by blast
qed

text \<open>
  A run whose second frame raises in \<^verbatim>\<open>SDL_RenderPresent\<close>: the error is put on the
  queue, then the renderer and the window are destroyed and SDL is quit, once. A run
  whose \<^verbatim>\<open>SDL_Init\<close> fails: the error is put on the queue and SDL is quit, once.
\<close>

theorem run_shuts_down_once_witness:
  "run faulting_env init_core =
     Some (\<lparr>running = True, rom_data = None, window = Some 1, renderer = Some 2\<rparr>,
           faulting_effects)
   \<and> (\<exists>f\<in>set (frames faulting_env). frame_ends f)
   \<and> run_fault faulting_env = Some (Some ''renderer lost'')
   \<and> puts_of faulting_effects = [Queue_put (''error'', ''renderer lost'')]
   \<and> quit_calls faulting_effects = [SDL_Quit]
   \<and> init_status (video init_failure_env) \<noteq> 0
   \<and> run init_failure_env init_core =
       Some (\<lparr>running = True, rom_data = None, window = None, renderer = None\<rparr>,
             [SDL_Init, SDL_GetError,
              Queue_put (''error'', ''SDL initialization failed: No available video device''),
              SDL_Quit])"
  using run_shuts_down_once[of faulting_env init_core]
    run_shuts_down_once[of init_failure_env init_core]
  by (simp add: faulting_env_def faulting_effects_def init_failure_env_def example_video_def
        idle_frame_def init_core_def run_def run_try_def run_exit_def init_video_def
        request_stop_def loop_body_def execute_frame_def render_frame_def shutdown_def
        on_exception_def frame_ends_def puts_of_def quit_calls_def run_fault_def
        frame_fault_def)

subsection \<open>Loading a ROM\<close>

text \<open>
  C2. When opening or reading the file fails, \<^verbatim>\<open>load_rom\<close> puts exactly one message on
  the queue, the error message with the reason of the failure, returns \<^verbatim>\<open>False\<close>, and
  leaves the core, and with it \<^verbatim>\<open>rom_data\<close>, exactly as it was.
\<close>

theorem load_rom_failure:
  assumes "fs path = Inl reason"
  shows "load_rom fs path c =
           (False, c, [Queue_put (''error'', ''ROM loading failed: '' @ reason)])"
  using assms by (simp add: load_rom_def)

theorem load_rom_failure_witness:
  "example_fs ''/roms/missing.z64'' = Inl ''[Errno 2] No such file or directory''
   \<and> load_rom example_fs ''/roms/missing.z64'' (init_core\<lparr>rom_data := Some [1, 2, 3]\<rparr>)
       = (False, init_core\<lparr>rom_data := Some [1, 2, 3]\<rparr>,
          [Queue_put (''error'', ''ROM loading failed: [Errno 2] No such file or directory'')])"
  using load_rom_failure[of example_fs "''/roms/missing.z64''"
          "''[Errno 2] No such file or directory''" "init_core\<lparr>rom_data := Some [1, 2, 3]\<rparr>"]
  by (simp add: example_fs_def)

text \<open>
  C7. When the file is read, with bytes \<open>bytes\<close>, \<^verbatim>\<open>load_rom\<close> returns \<^verbatim>\<open>True\<close>, stores
  exactly these bytes in \<^verbatim>\<open>rom_data\<close>, and puts exactly one message on the queue, the log
  message with the name of the file. The name is the last component of the path: for a
  path that ends in a component \<open>name\<close> without a slash, be it the whole path or what
  follows its last slash, the message is \<^verbatim>\<open>Loaded ROM: \<close> followed by \<open>name\<close>. A trailing
  slash or a trailing \<^verbatim>\<open>/.\<close> does not change the name, and the empty path and \<^verbatim>\<open>.\<close> have
  the empty name, as \<^verbatim>\<open>Path(path).name\<close> has it.
\<close>

theorem load_rom_success:
  assumes "fs path = Inr bytes"
  shows "load_rom fs path c =
           (True, c\<lparr>rom_data := Some bytes\<rparr>,
            [Queue_put (''log'', ''Loaded ROM: '' @ path_name path)])
         \<and> (\<forall>dir name. path = dir @ ''/'' @ name \<and> CHR ''/'' \<notin> set name \<and> name \<noteq> [] \<and> name \<noteq> ''.''
              \<longrightarrow> path_name path = name)
         \<and> (\<forall>dir name. path = dir @ name \<and> (dir = [] \<or> last dir = CHR ''/'')
                \<and> CHR ''/'' \<notin> set name \<and> name \<noteq> [] \<and> name \<noteq> ''.''
              \<longrightarrow> load_rom fs path c =
                    (True, c\<lparr>rom_data := Some bytes\<rparr>,
                     [Queue_put (''log'', ''Loaded ROM: '' @ name)]))
         \<and> path_name [] = [] \<and> path_name ''.'' = []
         \<and> (\<forall>p. path_name (p @ ''/'') = path_name p \<and> path_name (p @ ''/.'') = path_name p)"
proof -
  have l: "load_rom fs path c =
           (True, c\<lparr>rom_data := Some bytes\<rparr>,
            [Queue_put (''log'', ''Loaded ROM: '' @ path_name path)])"
    using assms by (simp add: load_rom_def)
  have a: "\<forall>dir name. path = dir @ ''/'' @ name \<and> CHR ''/'' \<notin> set name \<and> name \<noteq> [] \<and> name \<noteq> ''.''
              \<longrightarrow> path_name path = name"
    by (simp add: path_name_file)
  have b: "\<forall>dir name. path = dir @ name \<and> (dir = [] \<or> last dir = CHR ''/'')
                \<and> CHR ''/'' \<notin> set name \<and> name \<noteq> [] \<and> name \<noteq> ''.''
              \<longrightarrow> load_rom fs path c =
                    (True, c\<lparr>rom_data := Some bytes\<rparr>,
                     [Queue_put (''log'', ''Loaded ROM: '' @ name)])"
  proof (intro allI impI)
    fix dir name
    assume h: "path = dir @ name \<and> (dir = [] \<or> last dir = CHR ''/'')
                \<and> CHR ''/'' \<notin> set name \<and> name \<noteq> [] \<and> name \<noteq> ''.''"
    then have "path_name (dir @ name) = name"
      by (intro path_name_component) simp_all
    with h l show "load_rom fs path c =
                    (True, c\<lparr>rom_data := Some bytes\<rparr>,
                     [Queue_put (''log'', ''Loaded ROM: '' @ name)])"
      by simp
  qed
  have e: "path_name [] = [] \<and> path_name ''.'' = []"
    by (simp add: path_name_def)
  have t: "\<forall>p. path_name (p @ ''/'') = path_name p \<and> path_name (p @ ''/.'') = path_name p"
    using path_name_trailing_slash path_name_trailing_dot by blast
  from l a b e t show ?thesis by blast
qed

theorem load_rom_success_witness:
  "example_fs ''/roms/test.z64'' = Inr [0x80, 0x37, 0x12, 0x40]
   \<and> load_rom example_fs ''/roms/test.z64'' init_core
       = (True, init_core\<lparr>rom_data := Some [0x80, 0x37, 0x12, 0x40]\<rparr>,
          [Queue_put (''log'', ''Loaded ROM: test.z64'')])
   \<and> cwd_fs ''test.z64'' = Inr [0x80, 0x37, 0x12, 0x40]
   \<and> load_rom cwd_fs ''test.z64'' init_core
       = (True, init_core\<lparr>rom_data := Some [0x80, 0x37, 0x12, 0x40]\<rparr>,
          [Queue_put (''log'', ''Loaded ROM: test.z64'')])"
proof -
  have h: "example_fs ''/roms/test.z64'' = Inr [0x80, 0x37, 0x12, 0x40]"
    by (simp add: example_fs_def)
  have k: "cwd_fs ''test.z64'' = Inr [0x80, 0x37, 0x12, 0x40]"
    by (simp add: cwd_fs_def)
  note t = load_rom_success[of example_fs "''/roms/test.z64''" "[0x80, 0x37, 0x12, 0x40]" init_core]
  note u = load_rom_success[of cwd_fs "''test.z64''" "[0x80, 0x37, 0x12, 0x40]" init_core]
  from t h have "''/roms/test.z64'' = ''/roms/'' @ ''test.z64''
               \<and> (''/roms/'' = [] \<or> last ''/roms/'' = CHR ''/'')
               \<and> CHR ''/'' \<notin> set ''test.z64''
               \<and> ''test.z64'' \<noteq> [] \<and> ''test.z64'' \<noteq> ''.'' \<longrightarrow>
             load_rom example_fs ''/roms/test.z64'' init_core
               = (True, init_core\<lparr>rom_data := Some [0x80, 0x37, 0x12, 0x40]\<rparr>,
                  [Queue_put (''log'', ''Loaded ROM: '' @ ''test.z64'')])"
    by blast
  then have a: "load_rom example_fs ''/roms/test.z64'' init_core
               = (True, init_core\<lparr>rom_data := Some [0x80, 0x37, 0x12, 0x40]\<rparr>,
                  [Queue_put (''log'', ''Loaded ROM: test.z64'')])"
    by simp
  from u k have "''test.z64'' = [] @ ''test.z64''
               \<and> (([]::string) = [] \<or> last ([]::string) = CHR ''/'')
               \<and> CHR ''/'' \<notin> set ''test.z64''
               \<and> ''test.z64'' \<noteq> [] \<and> ''test.z64'' \<noteq> ''.'' \<longrightarrow>
             load_rom cwd_fs ''test.z64'' init_core
               = (True, init_core\<lparr>rom_data := Some [0x80, 0x37, 0x12, 0x40]\<rparr>,
                  [Queue_put (''log'', ''Loaded ROM: '' @ ''test.z64'')])"
    by blast
  then have b: "load_rom cwd_fs ''test.z64'' init_core
               = (True, init_core\<lparr>rom_data := Some [0x80, 0x37, 0x12, 0x40]\<rparr>,
                  [Queue_put (''log'', ''Loaded ROM: test.z64'')])"
    by simp
  from h k a b show ?thesis by simp
qed

text \<open>
  C10. The controller's load makes a fresh core before it reads the file. After a failed
  load of a chosen path the controller's core is that fresh core, which holds no ROM,
  whatever the core before held; the error message is on the queue and both buttons are
  in the state they were in.
\<close>

theorem gui_load_rom_failure:
  assumes "path \<noteq> []" and "fs path = Inl reason"
  shows "gui_load_rom fs path g =
           g\<lparr>emulator_core := Some (length (cores g)), cores := cores g @ [init_core],
             queue := queue g @ [(''error'', ''ROM loading failed: '' @ reason)]\<rparr>
         \<and> active_core (gui_load_rom fs path g) = Some init_core
         \<and> rom_data init_core = None
         \<and> start_button (gui_load_rom fs path g) = start_button g
         \<and> stop_button (gui_load_rom fs path g) = stop_button g"
  using assms by (simp add: gui_load_rom_def load_rom_def put_def init_core_def active_core_def)

text \<open>A failed load after a successful one: the ROM is gone, \<^verbatim>\<open>Start\<close> stays enabled.\<close>

theorem gui_load_rom_failure_witness:
  "''/roms/missing.z64'' \<noteq> []
   \<and> example_fs ''/roms/missing.z64'' = Inl ''[Errno 2] No such file or directory''
   \<and> active_core loaded_gui = Some (init_core\<lparr>rom_data := Some [0x80, 0x37, 0x12, 0x40]\<rparr>)
   \<and> start_button loaded_gui = NORMAL
   \<and> active_core (gui_load_rom example_fs ''/roms/missing.z64'' loaded_gui) = Some init_core
   \<and> start_button (gui_load_rom example_fs ''/roms/missing.z64'' loaded_gui) = NORMAL
   \<and> stop_button (gui_load_rom example_fs ''/roms/missing.z64'' loaded_gui) = DISABLED"
  using gui_load_rom_failure[of "''/roms/missing.z64''" example_fs
          "''[Errno 2] No such file or directory''" loaded_gui]
  by (simp add: example_fs_def loaded_gui_def gui_load_rom_def load_rom_def init_gui_def
        active_core_def)

subsection \<open>The event channel\<close>

text \<open>
  C4. The queue is first-in first-out under every interleaving of \<^verbatim>\<open>put\<close> and
  \<^verbatim>\<open>get_nowait\<close>: the messages taken, followed by those still queued, are the messages
  queued at the start followed by those put, in order. \<^verbatim>\<open>get_nowait\<close> on an empty queue
  returns at once with \<^verbatim>\<open>queue.Empty\<close>. One run of \<^verbatim>\<open>check_queue\<close> takes every queued
  message and handles them in the order they were put, and leaves the queue empty; on an
  empty queue it handles nothing. \<^verbatim>\<open>put\<close>, \<^verbatim>\<open>get_nowait\<close> and \<^verbatim>\<open>check_queue\<close> are total:
  none of them waits.
\<close>

theorem event_channel_fifo:
  "get_nowait [] = None
   \<and> (case channel_run ops q of (q', got) \<Rightarrow> got @ q' = q @ pushed ops)
   \<and> check_queue (g\<lparr>queue := fold put ms (queue g)\<rparr>)
       = fold handle_message (queue g @ ms) (g\<lparr>queue := []\<rparr>)
   \<and> queue (check_queue g) = []
   \<and> check_queue (g\<lparr>queue := []\<rparr>) = g\<lparr>queue := []\<rparr>"
proof -
  have a: "case channel_run ops q of (q', got) \<Rightarrow> got @ q' = q @ pushed ops"
    using channel_run_fifo[of ops q] by (cases "channel_run ops q") simp
  have b: "check_queue (g\<lparr>queue := fold put ms (queue g)\<rparr>)
       = fold handle_message (queue g @ ms) (g\<lparr>queue := []\<rparr>)"
    using check_queue_fold[of "g\<lparr>queue := fold put ms (queue g)\<rparr>" "queue g @ ms"]
    by (simp add: fold_put)
  have q: "queue (fold handle_message xs h) = queue h" for xs h
    by (induction xs arbitrary: h) simp_all
  have c: "queue (check_queue g) = []"
    using check_queue_fold[of g "queue g"] by (simp add: q)
  have d: "check_queue (g\<lparr>queue := []\<rparr>) = g\<lparr>queue := []\<rparr>"
    using check_queue_fold[of "g\<lparr>queue := []\<rparr>" "[]"] by simp
  from a b c d show ?thesis by simp
qed

theorem event_channel_fifo_witness:
  "channel_run [Push (''log'', ''a''), Pop, Push (''error'', ''b''), Push (''log'', ''c''), Pop, Pop, Pop] []
     = ([], example_messages)
   \<and> log_file (check_queue (init_gui\<lparr>queue := fold put example_messages (queue init_gui)\<rparr>))
       = [(INFO, ''[INFO] a''), (ERROR, ''[ERROR] b''), (INFO, ''[INFO] c'')]
   \<and> queue (check_queue (init_gui\<lparr>queue := fold put example_messages (queue init_gui)\<rparr>)) = []"
  using event_channel_fifo[where
          ops = "[Push (''log'', ''a''), Pop, Push (''error'', ''b''), Push (''log'', ''c''), Pop, Pop, Pop]"
          and q = "[]" and g = init_gui and ms = example_messages]
  by (simp add: example_messages_def init_gui_def put_def handle_message_def log_def)

subsection \<open>Video bring-up and teardown\<close>

text \<open>
  C5 asks \<^verbatim>\<open>init_video\<close> to fail whenever the window or the renderer cannot be created.
  \<^verbatim>\<open>init_video\<close> raises, with the text of \<^verbatim>\<open>SDL_GetError\<close>, on a failed \<^verbatim>\<open>SDL_Init\<close>
  only; the results of the two creation calls are stored unchecked. When \<^verbatim>\<open>SDL_Init\<close>
  succeeds and \<^verbatim>\<open>SDL_CreateRenderer\<close> returns NULL, \<^verbatim>\<open>init_video\<close> returns normally
  and leaves the core with a window and no renderer; \<^verbatim>\<open>run\<close> then enters the loop, renders
  on the NULL renderer, and puts no error on the queue.
\<close>

theorem init_video_renderer_missing:
  "init_video no_renderer_video init_core
     = (init_core\<lparr>window := Some 1, renderer := None\<rparr>,
        [SDL_Init, SDL_CreateWindow, SDL_CreateRenderer (Some 1)], None)
   \<and> run \<lparr>video = no_renderer_video, stop_early = False, frames = [quit_frame]\<rparr> init_core
     = Some (\<lparr>running = False, rom_data = None, window = Some 1, renderer = None\<rparr>,
             [SDL_Init, SDL_CreateWindow, SDL_CreateRenderer (Some 1),
              SDL_PollEvent, SDL_PollEvent, SDL_RenderClear None, SDL_RenderPresent None,
              SDL_DestroyWindow 1, SDL_Quit])"
  by (simp add: init_video_def no_renderer_video_def quit_frame_def idle_frame_def
        init_core_def run_def run_try_def run_exit_def request_stop_def loop_body_def
        execute_frame_def render_frame_def shutdown_def on_exception_def)

text \<open>
  \<^verbatim>\<open>shutdown\<close> leaves the handles as they are: a second call on a core with a window and
  a renderer destroys both again. It calls \<^verbatim>\<open>SDL_Quit\<close> without any check, also on a
  core whose video was never initialised.
\<close>

theorem shutdown_twice_counterexample:
  "shutdown example_core = (example_core, [SDL_DestroyRenderer 2, SDL_DestroyWindow 1, SDL_Quit])
   \<and> shutdown (fst (shutdown example_core))
       = (example_core, [SDL_DestroyRenderer 2, SDL_DestroyWindow 1, SDL_Quit])
   \<and> shutdown init_core = (init_core, [SDL_Quit])"
  by (simp add: shutdown_def example_core_def init_core_def)

text \<open>
  C6, amended. \<^verbatim>\<open>shutdown\<close> makes release calls only: it destroys the renderer if and
  only if one is present, then the window if and only if one is present, and last it
  quits SDL, unconditionally. It never releases an absent handle, so it is safe after
  \<^verbatim>\<open>init_video\<close> failed in part or in whole. It does not change the core: the handles
  stay as they were, and a second call makes the same calls as the first.
\<close>

theorem shutdown_releases_present_handles:
  "fst (shutdown c) = c
   \<and> (SDL_DestroyRenderer r \<in> set (snd (shutdown c)) \<longleftrightarrow> renderer c = Some r)
   \<and> (SDL_DestroyWindow w \<in> set (snd (shutdown c)) \<longleftrightarrow> window c = Some w)
   \<and> list_all is_release (snd (shutdown c))
   \<and> sorted (map release_rank (snd (shutdown c)))
   \<and> distinct (snd (shutdown c))
   \<and> last (snd (shutdown c)) = SDL_Quit
   \<and> shutdown (fst (shutdown c)) = shutdown c"
  by (cases "renderer c"; cases "window c") (auto simp: shutdown_def)

theorem shutdown_releases_present_handles_witness:
  "snd (shutdown (init_core\<lparr>window := Some 1\<rparr>)) = [SDL_DestroyWindow 1, SDL_Quit]
   \<and> snd (shutdown init_core) = [SDL_Quit]"
  using shutdown_releases_present_handles[of "init_core\<lparr>window := Some 1\<rparr>" 2 1]
    shutdown_releases_present_handles[of init_core 2 1]
  by (simp add: shutdown_def init_core_def)

subsection \<open>The controller's start and stop\<close>

text \<open>
  After a failed load the controller has a core without a ROM, and \<^verbatim>\<open>start_emulation\<close>
  starts a thread on it; where a successful load came first, the \<^verbatim>\<open>Start\<close> button is
  enabled as well. Under either schedule above two threads are in their loops at the same
  time, on the same core.
\<close>

theorem start_emulation_counterexample:
  "active_core failed_gui = Some init_core
   \<and> rom_data init_core = None
   \<and> threads failed_gui = []
   \<and> threads (start_emulation failed_gui) = [\<lparr>target = 0, stage = Created\<rparr>]
   \<and> active_core reloaded_gui = Some init_core
   \<and> start_button reloaded_gui = NORMAL
   \<and> threads (start_emulation reloaded_gui) = [\<lparr>target = 1, stage = Created\<rparr>]
   \<and> stop_button (start_emulation reloaded_gui) = NORMAL
   \<and> active_loops (exec example_fs double_start init_gui) = [0, 0]
   \<and> active_loops (exec example_fs restart init_gui) = [0, 0]"
  by (simp add: reloaded_gui_def failed_gui_def loaded_gui_def gui_load_rom_def load_rom_def
        example_fs_def init_gui_def init_core_def start_emulation_def stop_emulation_def
        log_def active_core_def active_loops_def exec_def double_start_def restart_def
        thread_begin_def thread_iterate_def settle_def init_video_def example_video_def
        idle_frame_def loop_body_def execute_frame_def render_frame_def put_def)

text \<open>
  C3, amended. \<^verbatim>\<open>start_emulation\<close> does nothing when the controller has no core, that
  is before any path was chosen in the load dialog. When it has a core, with or without a
  ROM and whatever threads were started before, it starts one more thread on that core,
  disables \<^verbatim>\<open>Start\<close>, enables \<^verbatim>\<open>Stop\<close> and logs the start.
\<close>

theorem start_emulation_guard:
  "(emulator_core g = None \<longrightarrow> start_emulation g = g)
   \<and> (\<forall>r. emulator_core g = Some r \<longrightarrow>
        start_emulation g =
          g\<lparr>emulator_thread := Some (length (threads g)),
            threads := threads g @ [\<lparr>target = r, stage = Created\<rparr>],
            start_button := DISABLED, stop_button := NORMAL,
            log_text := log_text g @ ''Emulation started'' @ [CHR 0x0A],
            log_file := log_file g @ [(INFO, ''Emulation started'')]\<rparr>)"
  by (auto simp: start_emulation_def log_def)

theorem start_emulation_guard_witness:
  "emulator_core init_gui = None \<and> start_emulation init_gui = init_gui
   \<and> emulator_core loaded_gui = Some 0
   \<and> threads (start_emulation loaded_gui) = [\<lparr>target = 0, stage = Created\<rparr>]
   \<and> start_button (start_emulation loaded_gui) = DISABLED
   \<and> stop_button (start_emulation loaded_gui) = NORMAL"
  using start_emulation_guard[of init_gui] start_emulation_guard[of loaded_gui]
  by (simp add: loaded_gui_def gui_load_rom_def load_rom_def example_fs_def init_gui_def)

text \<open>
  After a successful load, with no thread ever started and so no loop active,
  \<^verbatim>\<open>stop_emulation\<close> writes to the log.
\<close>

theorem stop_emulation_counterexample:
  "threads loaded_gui = []
   \<and> emulator_thread loaded_gui = None
   \<and> active_loops loaded_gui = []
   \<and> log_text loaded_gui = []
   \<and> log_text (stop_emulation loaded_gui) = ''Emulation stopped'' @ [CHR 0x0A]
   \<and> stop_emulation loaded_gui \<noteq> loaded_gui"
proof -
  have "log_text (stop_emulation loaded_gui) \<noteq> log_text loaded_gui"
    by (simp add: loaded_gui_def gui_load_rom_def load_rom_def example_fs_def init_gui_def
          stop_emulation_def log_def)
  then have "stop_emulation loaded_gui \<noteq> loaded_gui" by auto
  then show ?thesis
    by (simp add: loaded_gui_def gui_load_rom_def load_rom_def example_fs_def init_gui_def
          stop_emulation_def log_def active_loops_def)
qed

text \<open>
  C8, amended. \<^verbatim>\<open>stop_emulation\<close> does nothing when the controller has no core. When it
  has a core, whether or not a loop is running on it, it sets the run flag of that core to
  false, enables \<^verbatim>\<open>Start\<close>, disables \<^verbatim>\<open>Stop\<close> and logs the stop.
\<close>

theorem stop_emulation_guard:
  "(emulator_core g = None \<longrightarrow> stop_emulation g = g)
   \<and> (\<forall>r. emulator_core g = Some r \<longrightarrow>
        stop_emulation g =
          g\<lparr>cores := (cores g)[r := (cores g ! r)\<lparr>running := False\<rparr>],
            start_button := NORMAL, stop_button := DISABLED,
            log_text := log_text g @ ''Emulation stopped'' @ [CHR 0x0A],
            log_file := log_file g @ [(INFO, ''Emulation stopped'')]\<rparr>)
   \<and> (\<forall>c. active_core g = Some c \<longrightarrow>
        active_core (stop_emulation g) = Some (c\<lparr>running := False\<rparr>))"
  by (auto simp: stop_emulation_def log_def active_core_def split: option.splits if_splits)

theorem stop_emulation_guard_witness:
  "emulator_core init_gui = None \<and> stop_emulation init_gui = init_gui
   \<and> emulator_core loaded_gui = Some 0
   \<and> active_core loaded_gui = Some (init_core\<lparr>rom_data := Some [0x80, 0x37, 0x12, 0x40]\<rparr>)
   \<and> start_button (stop_emulation loaded_gui) = NORMAL
   \<and> stop_button (stop_emulation loaded_gui) = DISABLED
   \<and> log_file (stop_emulation loaded_gui) = [(INFO, ''Emulation stopped'')]"
  using stop_emulation_guard[of init_gui] stop_emulation_guard[of loaded_gui]
  by (simp add: loaded_gui_def gui_load_rom_def load_rom_def example_fs_def init_gui_def
        active_core_def)

end
